theory Spec2Isabelle
  imports Main "HOL-Library.Word"
begin

unbundle bit_operations_syntax

section \<open>Bytes, errors and the results of a parse\<close>

type_synonym u8 = "8 word"
type_synonym u16 = "16 word"
type_synonym u32 = "32 word"

text \<open>
  A Go method with a pointer receiver that returns \<^verbatim>\<open>error\<close> is modelled as a
  function from the receiver's prior state to its state when the call ends, paired with
  what the call reported: \<open>None\<close> for a nil error, \<open>Some (Error msg)\<close> for
  \<^verbatim>\<open>errors.New(msg)\<close>, \<open>Some HeaderError\<close> for the error of the box header's
  own parser, and \<open>Some Panic\<close> for a run-time panic (a slice or index out of range).
  Go's \<^verbatim>\<open>int\<close> is taken as the 64-bit type: offsets and lengths are \<open>nat\<close>, and
  no sum of a buffer offset and a 32-bit quantity leaves its range. Allocation
  (\<^verbatim>\<open>make\<close>) always succeeds. A byte slice is a list whose capacity is its length.
\<close>

datatype error = HeaderError | Error string | Panic

text \<open>\<^verbatim>\<open>copy(dst, src)\<close>: the first \<open>min (len dst) (len src)\<close> elements of \<open>dst\<close> are
  overwritten.\<close>

definition copy_go :: "'a list \<Rightarrow> 'a list \<Rightarrow> 'a list" where
  "copy_go dst src = take (length dst) src @ drop (length src) dst"

text \<open>\<^verbatim>\<open>binary.BigEndian\<close>: the first byte is the most significant.\<close>

definition be_uint16 :: "u8 list \<Rightarrow> u16" where
  "be_uint16 b = ucast (b ! 1) OR push_bit 8 (ucast (b ! 0))"

definition be_uint32 :: "u8 list \<Rightarrow> u32" where
  "be_uint32 b = ucast (b ! 3) OR push_bit 8 (ucast (b ! 2))
                 OR push_bit 16 (ucast (b ! 1)) OR push_bit 24 (ucast (b ! 0))"

section \<open>The box header and the cursor\<close>

record BoxHeader =
  Size :: u32
  Type :: "u8 list"

definition BoxHeader_zero :: BoxHeader where
  "BoxHeader_zero = \<lparr>Size = 0, Type = replicate 4 0\<rparr>"

text \<open>Modelled from the spec: \<^verbatim>\<open>BoxHeader.Parse\<close> is not among the source files. Every
  box begins with an 8-byte header, a 4-byte big-endian size and a 4-byte type code; a
  buffer shorter than that is a length violation and leaves the header as it was.\<close>

definition BoxHeader_Parse :: "BoxHeader \<Rightarrow> u8 list \<Rightarrow> BoxHeader \<times> error option" where
  "BoxHeader_Parse h buf =
     (if length buf < 8 then (h, Some HeaderError)
      else (h\<lparr>Size := be_uint32 (take 4 buf),
              Type := copy_go (Type h) (take 4 (drop 4 buf))\<rparr>, None))"

record parser =
  data :: "u8 list"
  offset :: nat

text \<open>Modelled from the spec: the cursor's methods are not among the source files. It is
  a sequential big-endian reader: \<^verbatim>\<open>Bytes(n)\<close> returns the next \<open>n\<close> raw bytes and
  advances the offset by \<open>n\<close>; \<^verbatim>\<open>Byte\<close>, \<^verbatim>\<open>Uint16\<close> and \<^verbatim>\<open>Uint32\<close> read 1, 2
  and 4 bytes. A read that runs past the end of the buffer is Go's slice-bounds panic,
  the value \<open>None\<close> here.\<close>

definition Bytes :: "parser \<Rightarrow> nat \<Rightarrow> (u8 list \<times> parser) option" where
  "Bytes p n =
     (if offset p + n \<le> length (data p)
      then Some (take n (drop (offset p) (data p)), p\<lparr>offset := offset p + n\<rparr>)
      else None)"

definition Byte :: "parser \<Rightarrow> (u8 \<times> parser) option" where
  "Byte p = (case Bytes p 1 of None \<Rightarrow> None | Some (bs, p') \<Rightarrow> Some (bs ! 0, p'))"

definition Uint16 :: "parser \<Rightarrow> (u16 \<times> parser) option" where
  "Uint16 p = (case Bytes p 2 of None \<Rightarrow> None | Some (bs, p') \<Rightarrow> Some (be_uint16 bs, p'))"

definition Uint32 :: "parser \<Rightarrow> (u32 \<times> parser) option" where
  "Uint32 p = (case Bytes p 4 of None \<Rightarrow> None | Some (bs, p') \<Rightarrow> Some (be_uint32 bs, p'))"

section \<open>PSSH\<close>

record PsshBox =
  pssh_Header :: BoxHeader
  pssh_Version :: u8
  pssh_Flags :: "u8 list"
  SystemID :: "u8 list"
  KIDs :: "u8 list list"
  Data :: "u8 list"

definition PsshBox_zero :: PsshBox where
  "PsshBox_zero = \<lparr>pssh_Header = BoxHeader_zero, pssh_Version = 0,
     pssh_Flags = replicate 3 0, SystemID = replicate 16 0, KIDs = [], Data = []\<rparr>"

text \<open>The bounds check before the key-ID array (line 37): the product
  \<^verbatim>\<open>kidCount*16\<close> is formed in \<^verbatim>\<open>uint32\<close> and only then converted to \<^verbatim>\<open>int\<close>.\<close>

definition pssh_kids_too_short :: "u8 list \<Rightarrow> nat \<Rightarrow> u32 \<Rightarrow> bool" where
  "pssh_kids_too_short buf off kidCount = (length buf < off + unat (kidCount * 16))"

text \<open>The loop of lines 41 to 43, \<open>i\<close> running from its current value up to
  \<^verbatim>\<open>int(kidCount)\<close>; the array \<^verbatim>\<open>b.KIDs\<close> is updated in place.\<close>

function pssh_kid_loop ::
  "nat \<Rightarrow> nat \<Rightarrow> parser \<Rightarrow> u8 list list \<Rightarrow> (u8 list list \<times> parser) \<times> error option" where
  "pssh_kid_loop i n p kids =
     (if i < n then
        (case Bytes p 16 of
           None \<Rightarrow> ((kids, p), Some Panic)
         | Some (bs, p') \<Rightarrow> pssh_kid_loop (i + 1) n p' (kids[i := copy_go (kids ! i) bs]))
      else ((kids, p), None))"
  by pat_completeness auto
termination
  by (relation "measure (\<lambda>(i, n, p, kids). n - i)") auto

declare pssh_kid_loop.simps [simp del]

text \<open>Lines 32 to 44, the block under \<^verbatim>\<open>if b.Version > 0\<close>.\<close>

definition pssh_kids :: "PsshBox \<Rightarrow> parser \<Rightarrow> u8 list \<Rightarrow> (PsshBox \<times> parser) \<times> error option" where
  "pssh_kids b p buf =
     (if pssh_Version b > 0 then
        if length buf < offset p + 4 then ((b, p), Some (Error ''pssh too short for KID count''))
        else
          (case Uint32 p of
             None \<Rightarrow> ((b, p), Some Panic)
           | Some (kidCount, p1) \<Rightarrow>
               if pssh_kids_too_short buf (offset p1) kidCount
               then ((b, p1), Some (Error ''pssh too short for KIDs''))
               else
                 (case pssh_kid_loop 0 (unat kidCount) p1
                         (replicate (unat kidCount) (replicate 16 0)) of
                    ((kids, p2), e) \<Rightarrow> ((b\<lparr>KIDs := kids\<rparr>, p2), e)))
      else ((b, p), None))"

text \<open>Lines 46 to 54, the data size and the opaque payload.\<close>

definition pssh_tail :: "PsshBox \<Rightarrow> parser \<Rightarrow> u8 list \<Rightarrow> PsshBox \<times> error option" where
  "pssh_tail b p buf =
     (if length buf < offset p + 4 then (b, Some (Error ''pssh too short for data size''))
      else
        (case Uint32 p of
           None \<Rightarrow> (b, Some Panic)
         | Some (dataSize, p1) \<Rightarrow>
             if length buf < offset p1 + unat dataSize
             then (b, Some (Error ''pssh size mismatch''))
             else
               (case Bytes p1 (unat dataSize) of
                  None \<Rightarrow> (b, Some Panic)
                | Some (bs, p2) \<Rightarrow> (b\<lparr>Data := bs\<rparr>, None))))"

definition PsshBox_Parse :: "PsshBox \<Rightarrow> u8 list \<Rightarrow> PsshBox \<times> error option" where
  "PsshBox_Parse b buf =
     (case BoxHeader_Parse (pssh_Header b) buf of
        (h, Some e) \<Rightarrow> (b\<lparr>pssh_Header := h\<rparr>, Some e)
      | (h, None) \<Rightarrow>
          let b0 = b\<lparr>pssh_Header := h\<rparr> in
          if length buf < 28 then (b0, Some (Error ''pssh too short''))
          else
            (case Bytes \<lparr>data = buf, offset = 8\<rparr> 4 of
               None \<Rightarrow> (b0, Some Panic)
             | Some (versionAndFlags, p1) \<Rightarrow>
                 let b1 = b0\<lparr>pssh_Version := versionAndFlags ! 0,
                             pssh_Flags := copy_go (pssh_Flags b0) (drop 1 versionAndFlags)\<rparr> in
                 (case Bytes p1 16 of
                    None \<Rightarrow> (b1, Some Panic)
                  | Some (sid, p2) \<Rightarrow>
                      let b2 = b1\<lparr>SystemID := copy_go (SystemID b1) sid\<rparr> in
                      (case pssh_kids b2 p2 buf of
                         ((b3, p3), Some e) \<Rightarrow> (b3, Some e)
                       | ((b3, p3), None) \<Rightarrow> pssh_tail b3 p3 buf))))"

section \<open>TENC\<close>

record TencBox =
  tenc_Header :: BoxHeader
  tenc_Version :: u8
  tenc_Flags :: u32
  DefaultIsProtected :: u8
  DefaultPerSampleIVSize :: u8
  DefaultKID :: "u8 list"
  DefaultConstantIVSize :: u8
  DefaultConstantIV :: "u8 list"

definition TencBox_zero :: TencBox where
  "TencBox_zero = \<lparr>tenc_Header = BoxHeader_zero, tenc_Version = 0, tenc_Flags = 0,
     DefaultIsProtected = 0, DefaultPerSampleIVSize = 0, DefaultKID = replicate 16 0,
     DefaultConstantIVSize = 0, DefaultConstantIV = []\<rparr>"

text \<open>Lines 99 to 110, the conditional constant-IV tail.\<close>

definition tenc_constant_iv :: "TencBox \<Rightarrow> parser \<Rightarrow> u8 list \<Rightarrow> TencBox \<times> error option" where
  "tenc_constant_iv b p buf =
     (if DefaultIsProtected b = 1 \<and> DefaultPerSampleIVSize b = 0 then
        if offset p < unat (Size (tenc_Header b)) then
          if length buf < offset p + 1
          then (b, Some (Error ''tenc box truncated before constant IV size''))
          else
            (case Byte p of
               None \<Rightarrow> (b, Some Panic)
             | Some (n, p1) \<Rightarrow>
                 let b1 = b\<lparr>DefaultConstantIVSize := n\<rparr> in
                 if length buf < offset p1 + unat (DefaultConstantIVSize b1)
                 then (b1, Some (Error ''tenc box truncated, not enough data for constant IV''))
                 else
                   (case Bytes p1 (unat (DefaultConstantIVSize b1)) of
                      None \<Rightarrow> (b1, Some Panic)
                    | Some (bs, p2) \<Rightarrow> (b1\<lparr>DefaultConstantIV := bs\<rparr>, None)))
        else (b, None)
      else (b, None))"

text \<open>Lines 84 to 111, the version-0 payload.\<close>

definition tenc_v0 :: "TencBox \<Rightarrow> parser \<Rightarrow> u8 list \<Rightarrow> TencBox \<times> error option" where
  "tenc_v0 b p buf =
     (if length buf < offset p + 20
      then (b, Some (Error ''tenc v0 box too short for required fields''))
      else
        (case Bytes p 2 of
           None \<Rightarrow> (b, Some Panic)
         | Some (reserved, p1) \<Rightarrow>
             (case Byte p1 of
                None \<Rightarrow> (b, Some Panic)
              | Some (isProtected, p2) \<Rightarrow>
                  let b1 = b\<lparr>DefaultIsProtected := isProtected\<rparr> in
                  (case Byte p2 of
                     None \<Rightarrow> (b1, Some Panic)
                   | Some (ivSize, p3) \<Rightarrow>
                       let b2 = b1\<lparr>DefaultPerSampleIVSize := ivSize\<rparr> in
                       (case Bytes p3 16 of
                          None \<Rightarrow> (b2, Some Panic)
                        | Some (kid, p4) \<Rightarrow>
                            tenc_constant_iv
                              (b2\<lparr>DefaultKID := copy_go (DefaultKID b2) kid\<rparr>) p4 buf)))))"

definition TencBox_Parse :: "TencBox \<Rightarrow> u8 list \<Rightarrow> TencBox \<times> error option" where
  "TencBox_Parse b buf =
     (case BoxHeader_Parse (tenc_Header b) buf of
        (h, Some e) \<Rightarrow> (b\<lparr>tenc_Header := h\<rparr>, Some e)
      | (h, None) \<Rightarrow>
          let b0 = b\<lparr>tenc_Header := h\<rparr>; p = \<lparr>data = buf, offset = 8\<rparr> in
          if length buf < offset p + 4
          then (b0, Some (Error ''tenc box too short for version/flags''))
          else
            (case Uint32 p of
               None \<Rightarrow> (b0, Some Panic)
             | Some (versionAndFlags, p1) \<Rightarrow>
                 let b1 = b0\<lparr>tenc_Version := ucast (drop_bit 24 versionAndFlags),
                             tenc_Flags := versionAndFlags AND 0x00FFFFFF\<rparr> in
                 if tenc_Version b1 = 0 then tenc_v0 b1 p1 buf else (b1, None)))"

section \<open>SENC\<close>

record SubsampleInfo =
  BytesOfClearData :: u16
  BytesOfProtectedData :: u32

record SampleEncryptionInfo =
  IV :: "u8 list"
  Subsamples :: "SubsampleInfo list"

record SencBox =
  senc_Header :: BoxHeader
  senc_Flags :: u32
  Samples :: "SampleEncryptionInfo list"

definition SubsampleInfo_zero :: SubsampleInfo where
  "SubsampleInfo_zero = \<lparr>BytesOfClearData = 0, BytesOfProtectedData = 0\<rparr>"

definition SampleEncryptionInfo_zero :: SampleEncryptionInfo where
  "SampleEncryptionInfo_zero = \<lparr>IV = [], Subsamples = []\<rparr>"

definition SencBox_zero :: SencBox where
  "SencBox_zero = \<lparr>senc_Header = BoxHeader_zero, senc_Flags = 0, Samples = []\<rparr>"

text \<open>The inner loop of lines 160 to 167 over \<^verbatim>\<open>b.Samples[i].Subsamples\<close>; the counter
  \<open>j\<close> is a \<^verbatim>\<open>uint16\<close> below \<open>subsampleCount\<close>, so its increment never wraps.\<close>

function senc_subsample_loop ::
  "nat \<Rightarrow> nat \<Rightarrow> parser \<Rightarrow> SubsampleInfo list \<Rightarrow> u8 list
     \<Rightarrow> (SubsampleInfo list \<times> parser) \<times> error option" where
  "senc_subsample_loop j m p subs buf =
     (if j < m then
        if length buf < offset p + 6
        then ((subs, p), Some (Error ''senc truncated while reading subsample''))
        else
          (case Uint16 p of
             None \<Rightarrow> ((subs, p), Some Panic)
           | Some (clear, p1) \<Rightarrow>
               (case Uint32 p1 of
                  None \<Rightarrow> ((subs, p1), Some Panic)
                | Some (prot, p2) \<Rightarrow>
                    senc_subsample_loop (j + 1) m p2
                      (subs[j := \<lparr>BytesOfClearData = clear, BytesOfProtectedData = prot\<rparr>]) buf))
      else ((subs, p), None))"
  by pat_completeness auto
termination
  by (relation "measure (\<lambda>(j, m, p, subs, buf). m - j)") auto

declare senc_subsample_loop.simps [simp del]

text \<open>One iteration of the loop over the samples, lines 149 to 168, on entry \<open>i\<close>.\<close>

definition senc_sample_step ::
  "nat \<Rightarrow> parser \<Rightarrow> SampleEncryptionInfo list \<Rightarrow> bool \<Rightarrow> u8 list
     \<Rightarrow> (SampleEncryptionInfo list \<times> parser) \<times> error option" where
  "senc_sample_step i p samples subsamplesPresent buf =
     (if length buf < offset p + 8
      then ((samples, p), Some (Error ''senc truncated while reading IV''))
      else
        (case Bytes p 8 of
           None \<Rightarrow> ((samples, p), Some Panic)
         | Some (iv, p1) \<Rightarrow>
             let samples1 = samples[i := (samples ! i)\<lparr>IV := iv\<rparr>] in
             if subsamplesPresent then
               if length buf < offset p1 + 2
               then ((samples1, p1), Some (Error ''senc truncated while reading subsample count''))
               else
                 (case Uint16 p1 of
                    None \<Rightarrow> ((samples1, p1), Some Panic)
                  | Some (subsampleCount, p2) \<Rightarrow>
                      (case senc_subsample_loop 0 (unat subsampleCount) p2
                              (replicate (unat subsampleCount) SubsampleInfo_zero) buf of
                         ((subs, p3), e) \<Rightarrow>
                           ((samples1[i := (samples1 ! i)\<lparr>Subsamples := subs\<rparr>], p3), e)))
             else ((samples1, p1), None)))"

text \<open>The loop of line 148; \<open>i\<close> is a \<^verbatim>\<open>uint32\<close> below \<open>sampleCount\<close>, so its
  increment never wraps.\<close>

function senc_sample_loop ::
  "nat \<Rightarrow> nat \<Rightarrow> parser \<Rightarrow> SampleEncryptionInfo list \<Rightarrow> bool \<Rightarrow> u8 list
     \<Rightarrow> (SampleEncryptionInfo list \<times> parser) \<times> error option" where
  "senc_sample_loop i n p samples subsamplesPresent buf =
     (if i < n then
        (case senc_sample_step i p samples subsamplesPresent buf of
           ((samples1, p1), Some e) \<Rightarrow> ((samples1, p1), Some e)
         | ((samples1, p1), None) \<Rightarrow>
             senc_sample_loop (i + 1) n p1 samples1 subsamplesPresent buf)
      else ((samples, p), None))"
  by pat_completeness auto
termination
  by (relation "measure (\<lambda>(i, n, p, samples, sp, buf). n - i)") auto

declare senc_sample_loop.simps [simp del]

definition SencBox_Parse :: "SencBox \<Rightarrow> u8 list \<Rightarrow> SencBox \<times> error option" where
  "SencBox_Parse b buf =
     (case BoxHeader_Parse (senc_Header b) buf of
        (h, Some e) \<Rightarrow> (b\<lparr>senc_Header := h\<rparr>, Some e)
      | (h, None) \<Rightarrow>
          let b0 = b\<lparr>senc_Header := h\<rparr> in
          if length buf < 16 then (b0, Some (Error ''senc too short''))
          else
            (case Uint32 \<lparr>data = buf, offset = 8\<rparr> of
               None \<Rightarrow> (b0, Some Panic)
             | Some (fl, p1) \<Rightarrow>
                 let b1 = b0\<lparr>senc_Flags := fl AND 0x00FFFFFF\<rparr> in
                 (case Uint32 p1 of
                    None \<Rightarrow> (b1, Some Panic)
                  | Some (sampleCount, p2) \<Rightarrow>
                      let b2 = b1\<lparr>Samples :=
                                  replicate (unat sampleCount) SampleEncryptionInfo_zero\<rparr>;
                          subsamplesPresent = (senc_Flags b2 AND 0x000002 \<noteq> 0) in
                      (case senc_sample_loop 0 (unat sampleCount) p2 (Samples b2)
                              subsamplesPresent buf of
                         ((samples, p3), e) \<Rightarrow> (b2\<lparr>Samples := samples\<rparr>, e)))))"

section \<open>The sample decryptor\<close>

text \<open>
  \<^verbatim>\<open>cipher.Block\<close> and \<^verbatim>\<open>cipher.NewCTR\<close> belong to Go's standard library. A block
  cipher is its block size and its encryption function, and it is never nil. The CTR
  stream encrypts the counter block, increments it as a big-endian integer, and hands
  out the resulting bytes in order; its state between two calls of
  \<^verbatim>\<open>XORKeyStream\<close> is the number of keystream bytes already used. \<^verbatim>\<open>NewCTR\<close>
  panics when the IV's length is not the block size.
\<close>

record Block =
  BlockSize :: nat
  Encrypt :: "u8 list \<Rightarrow> u8 list"

record ctr =
  ctr_block :: Block
  ctr_iv :: "u8 list"
  ctr_used :: nat

fun inc_le :: "u8 list \<Rightarrow> u8 list" where
  "inc_le [] = []"
| "inc_le (x # xs) = (if x + 1 = 0 then 0 # inc_le xs else (x + 1) # xs)"

definition inc_be :: "u8 list \<Rightarrow> u8 list" where
  "inc_be xs = rev (inc_le (rev xs))"

definition keystream_byte :: "Block \<Rightarrow> u8 list \<Rightarrow> nat \<Rightarrow> u8" where
  "keystream_byte blk iv k =
     Encrypt blk ((inc_be ^^ (k div BlockSize blk)) iv) ! (k mod BlockSize blk)"

definition NewCTR :: "Block \<Rightarrow> u8 list \<Rightarrow> ctr option" where
  "NewCTR block iv =
     (if length iv \<noteq> BlockSize block then None
      else Some \<lparr>ctr_block = block, ctr_iv = iv, ctr_used = 0\<rparr>)"

definition keystream :: "ctr \<Rightarrow> nat \<Rightarrow> u8 list" where
  "keystream s n =
     map (keystream_byte (ctr_block s) (ctr_iv s)) [ctr_used s ..< ctr_used s + n]"

definition xor_bytes :: "u8 list \<Rightarrow> u8 list \<Rightarrow> u8 list" where
  "xor_bytes xs ks = map (\<lambda>(x, k). x XOR k) (zip xs ks)"

definition XORKeyStream :: "ctr \<Rightarrow> u8 list \<Rightarrow> u8 list \<times> ctr" where
  "XORKeyStream s src =
     (xor_bytes src (keystream s (length src)), s\<lparr>ctr_used := ctr_used s + length src\<rparr>)"

text \<open>The loop of lines 189 to 200. The slice \<^verbatim>\<open>sample[sampleOffset:end]\<close> panics when
  \<open>sampleOffset\<close> exceeds \<open>end\<close>; \<open>end\<close> itself has been clamped to the length. The chunk
  aliases the sample, so the sample is rewritten between the two bounds.\<close>

fun decrypt_subsamples ::
  "ctr \<Rightarrow> nat \<Rightarrow> u8 list \<Rightarrow> SubsampleInfo list \<Rightarrow> u8 list \<times> error option" where
  "decrypt_subsamples stream sampleOffset sample [] = (sample, None)"
| "decrypt_subsamples stream sampleOffset sample (subsample # rest) =
     (let off = sampleOffset + unat (BytesOfClearData subsample) in
      if BytesOfProtectedData subsample > 0 then
        let end0 = off + unat (BytesOfProtectedData subsample);
            end1 = (if end0 > length sample then length sample else end0) in
        if off > end1 then (sample, Some Panic)
        else
          (case XORKeyStream stream (take (end1 - off) (drop off sample)) of
             (chunk, stream1) \<Rightarrow>
               decrypt_subsamples stream1 end1
                 (take off sample @ chunk @ drop end1 sample) rest)
      else decrypt_subsamples stream off sample rest)"

definition DecryptSample ::
  "u8 list \<Rightarrow> SampleEncryptionInfo option \<Rightarrow> Block \<Rightarrow> u8 list \<times> error option" where
  "DecryptSample sample info block =
     (case info of
        None \<Rightarrow> (sample, None)
      | Some sei \<Rightarrow>
          if length (IV sei) = 0 then (sample, None)
          else
            let iv = (if length (IV sei) = 8 then copy_go (replicate 16 0) (IV sei)
                      else IV sei) in
            (case NewCTR block iv of
               None \<Rightarrow> (sample, Some Panic)
             | Some stream \<Rightarrow>
                 if length (Subsamples sei) = 0
                 then (fst (XORKeyStream stream sample), None)
                 else decrypt_subsamples stream 0 sample (Subsamples sei)))"

section \<open>Concrete boxes and samples\<close>

text \<open>PSSH boxes: one of 32 bytes and one of 48 bytes whose key-ID counts make the product
  of line 37 wrap, a well-formed box of version 0 and one of version 1 with two key IDs.\<close>

definition pssh_buf32 :: "u8 list" where
  "pssh_buf32 = [0,0,0,32, 0x70,0x73,0x73,0x68, 1, 0,0,0] @ replicate 16 0xAB @ [0x10,0,0,0]"

definition pssh_buf48 :: "u8 list" where
  "pssh_buf48 = [0,0,0,48, 0x70,0x73,0x73,0x68, 1, 0,0,0] @ replicate 16 0xAB @ [0x10,0,0,1]
                 @ replicate 16 0xCD"

definition pssh_v0_buf :: "u8 list" where
  "pssh_v0_buf = [0,0,0,36, 0x70,0x73,0x73,0x68, 0, 0,0,0] @ replicate 16 0xAB @ [0,0,0,4]
                 @ [0xDE,0xAD,0xBE,0xEF]"

definition pssh_v1_buf :: "u8 list" where
  "pssh_v1_buf = [0,0,0,70, 0x70,0x73,0x73,0x68, 1, 0,0,0] @ replicate 16 0xAB @ [0,0,0,2]
                 @ replicate 16 0x11 @ replicate 16 0x22 @ [0,0,0,2] @ [0xBE,0xEF]"

text \<open>TENC boxes: the minimum version-0 layout, one with an 8-byte constant IV, and one of
  version 1. The key ID is the one of the repository's test.\<close>

definition tenc_buf32 :: "u8 list" where
  "tenc_buf32 = [0,0,0,32, 0x74,0x65,0x6E,0x63, 0, 0,0,0, 0,0, 1, 0] @
     [0x3c,0x18,0x63,0x99,0x5f,0x93,0xb8,0x2b,0xce,0x88,0xba,0xce,0x3a,0x1a,0xa6,0x7a]"

definition tenc_buf41 :: "u8 list" where
  "tenc_buf41 = [0,0,0,41, 0x74,0x65,0x6E,0x63, 0, 0,0,0, 0,0, 1, 0] @
     [0x3c,0x18,0x63,0x99,0x5f,0x93,0xb8,0x2b,0xce,0x88,0xba,0xce,0x3a,0x1a,0xa6,0x7a] @
     [8, 1,2,3,4,5,6,7,8]"

definition tenc_v1_buf :: "u8 list" where
  "tenc_v1_buf = [0,0,0,32, 0x74,0x65,0x6E,0x63, 1, 0,0,7, 0,0, 1, 8] @
     [0x3c,0x18,0x63,0x99,0x5f,0x93,0xb8,0x2b,0xce,0x88,0xba,0xce,0x3a,0x1a,0xa6,0x7a]"

text \<open>A block cipher of block size 16 that XORs every byte with a constant, an 8-byte IV,
  and the samples and subsample lists of the examples.\<close>

definition xor_block :: Block where
  "xor_block = \<lparr>BlockSize = 16, Encrypt = map (\<lambda>b. b XOR 0xA5)\<rparr>"

definition iv8 :: "u8 list" where
  "iv8 = [1,2,3,4,5,6,7,8]"

definition short_sample :: "u8 list" where
  "short_sample = [1,2,3,4,5]"

definition overrun_info :: SampleEncryptionInfo where
  "overrun_info = \<lparr>IV = iv8,
     Subsamples = [\<lparr>BytesOfClearData = 10, BytesOfProtectedData = 20\<rparr>]\<rparr>"

definition sample100 :: "u8 list" where
  "sample100 = replicate 100 0"

definition subsamples_10_20_5_65 :: "SubsampleInfo list" where
  "subsamples_10_20_5_65 = [\<lparr>BytesOfClearData = 10, BytesOfProtectedData = 20\<rparr>,
                            \<lparr>BytesOfClearData = 5, BytesOfProtectedData = 65\<rparr>]"

definition info100 :: SampleEncryptionInfo where
  "info100 = \<lparr>IV = iv8, Subsamples = subsamples_10_20_5_65\<rparr>"

section \<open>Lemmas on bytes, the cursor and the PSSH parser\<close>

lemma copy_go_same_length: "length dst = length src \<Longrightarrow> copy_go dst src = src"
  by (simp add: copy_go_def)

lemma length_copy_go: "length (copy_go dst src) = length dst"
  by (simp add: copy_go_def)

lemma be_uint32_bytes: "be_uint32 [a, b, c, d] = ucast d OR push_bit 8 (ucast c) OR push_bit 16 (ucast b) OR push_bit 24 (ucast a)"
  by (simp add: be_uint32_def)

lemma version_of_word:
  "(ucast (drop_bit 24 (ucast (d::u8) OR push_bit 8 (ucast (c::u8)) OR push_bit 16 (ucast (b::u8)) OR push_bit 24 (ucast (a::u8)) :: u32)) :: u8) = a"
  by (rule bit_word_eqI) (auto simp add: bit_simps dest: bit_imp_le_length)

lemma Bytes_Some:
  "offset p + n \<le> length (data p) \<Longrightarrow>
   Bytes p n = Some (take n (drop (offset p) (data p)), p\<lparr>offset := offset p + n\<rparr>)"
  by (simp add: Bytes_def)

lemma Bytes_SomeD:
  "Bytes p n = Some (bs, p') \<Longrightarrow>
   offset p + n \<le> length (data p) \<and> bs = take n (drop (offset p) (data p)) \<and>
   p' = p\<lparr>offset := offset p + n\<rparr>"
  by (auto simp add: Bytes_def split: if_splits)

lemma pssh_kid_loop_ok:
  "pssh_kid_loop i n p kids = ((kids', p'), None) \<Longrightarrow> i \<le> n \<Longrightarrow>
   (\<forall>k<length kids. length (kids ! k) = 16) \<Longrightarrow>
   length kids' = length kids \<and> data p' = data p \<and> offset p' = offset p + 16 * (n - i) \<and>
   (\<forall>k<length kids. kids' ! k =
       (if i \<le> k \<and> k < n then take 16 (drop (offset p + 16 * (k - i)) (data p)) else kids ! k))"
proof (induction i n p kids arbitrary: kids' p' rule: pssh_kid_loop.induct)
  case (1 i n p kids)
  show ?case
  proof (cases "i < n")
    case False
    with "1.prems" show ?thesis
      by (subst (asm) pssh_kid_loop.simps) auto
  next
    case True
    from "1.prems"(1) True obtain bs p1 where
      B: "Bytes p 16 = Some (bs, p1)" and
      L: "pssh_kid_loop (i + 1) n p1 (kids[i := copy_go (kids ! i) bs]) = ((kids', p'), None)"
      by (subst (asm) pssh_kid_loop.simps) (auto split: option.splits)
    from Bytes_SomeD [OF B] have
      R: "offset p + 16 \<le> length (data p)" and bs: "bs = take 16 (drop (offset p) (data p))"
      and p1: "p1 = p\<lparr>offset := offset p + 16\<rparr>" by auto
    have lbs: "length bs = 16" using R bs by simp
    let ?kids1 = "kids[i := copy_go (kids ! i) bs]"
    have K1: "\<forall>k<length ?kids1. length (?kids1 ! k) = 16"
      using "1.prems"(3) lbs by (cases "i < length kids") (auto simp add: nth_list_update length_copy_go)
    have IH: "length kids' = length ?kids1 \<and> data p' = data p1 \<and>
        offset p' = offset p1 + 16 * (n - (i + 1)) \<and>
        (\<forall>k<length ?kids1. kids' ! k =
          (if i + 1 \<le> k \<and> k < n then take 16 (drop (offset p1 + 16 * (k - (i + 1))) (data p1))
           else ?kids1 ! k))"
      using "1.IH" [OF True B refl L _ K1] True by simp
    have off: "offset p' = offset p + 16 * (n - i)"
      using IH p1 True by simp
    have nth: "kids' ! k = (if i \<le> k \<and> k < n then take 16 (drop (offset p + 16 * (k - i)) (data p)) else kids ! k)"
      if k: "k < length kids" for k
    proof (cases "k = i")
      case True
      have "length (kids ! i) = 16" using "1.prems"(3) k True by simp
      then have "copy_go (kids ! i) bs = bs" using lbs by (simp add: copy_go_same_length)
      then show ?thesis using IH k True \<open>i < n\<close> bs by simp
    next
      case False
      have "16 + 16 * (k - (i + 1)) = 16 * (k - i)" if "i + 1 \<le> k" using that by simp
      then show ?thesis using IH k False p1 by (auto simp add: add.assoc)
    qed
    show ?thesis using IH off nth p1 by simp
  qed
qed


lemma pssh_tail_KIDs: "KIDs (fst (pssh_tail b p buf)) = KIDs b"
  by (simp add: pssh_tail_def split: option.splits prod.splits)

lemma pssh_tail_Data: "snd (pssh_tail b p buf) \<noteq> None \<Longrightarrow> fst (pssh_tail b p buf) = b"
  by (simp add: pssh_tail_def split: option.splits prod.splits if_splits)

lemma pssh_kids_v0: "pssh_Version b = 0 \<Longrightarrow> pssh_kids b p buf = ((b, p), None)"
  by (simp add: pssh_kids_def)

lemma pssh_kids_Data: "Data (fst (fst (pssh_kids b p buf))) = Data b"
  by (simp add: pssh_kids_def Let_def split: option.splits prod.splits)

lemma pssh_kids_ok:
  assumes "pssh_kids b p buf = ((b', p'), None)" and "pssh_Version b \<noteq> 0" and "data p = buf"
  shows "KIDs b' = map (\<lambda>i. take 16 (drop (offset p + 4 + 16 * i) buf))
                     [0..<unat (be_uint32 (take 4 (drop (offset p) buf)))]"
proof -
  let ?K = "unat (be_uint32 (take 4 (drop (offset p) buf)))"
  let ?p1 = "p\<lparr>offset := offset p + 4\<rparr>"
  let ?kids0 = "replicate ?K (replicate 16 (0::u8))"
  from assms have len: "offset p + 4 \<le> length buf"
    by (auto simp add: pssh_kids_def word_greater_zero_iff split: if_splits)
  then have U: "Uint32 p = Some (be_uint32 (take 4 (drop (offset p) buf)), ?p1)"
    using assms(3) by (simp add: Uint32_def Bytes_Some)
  obtain kids p2 where L: "pssh_kid_loop 0 ?K ?p1 ?kids0 = ((kids, p2), None)"
    and b': "b' = b\<lparr>KIDs := kids\<rparr>"
    using assms(1,2) len U
    by (auto simp add: pssh_kids_def word_greater_zero_iff split: if_splits prod.splits)
  have "length kids = length ?kids0 \<and> data p2 = data ?p1 \<and>
      offset p2 = offset ?p1 + 16 * (?K - 0) \<and>
      (\<forall>k<length ?kids0. kids ! k =
         (if 0 \<le> k \<and> k < ?K then take 16 (drop (offset ?p1 + 16 * (k - 0)) (data ?p1))
          else ?kids0 ! k))"
    by (rule pssh_kid_loop_ok [OF L]) simp_all
  then have "length kids = ?K" and "\<forall>k<?K. kids ! k = take 16 (drop (offset p + 4 + 16 * k) buf)"
    using assms(3) by simp_all
  then have "kids = map (\<lambda>i. take 16 (drop (offset p + 4 + 16 * i) buf)) [0..<?K]"
    by (intro nth_equalityI) simp_all
  then show ?thesis using b' by simp
qed

lemma PsshBox_Parse_prefix:
  assumes "28 \<le> length buf"
  shows "PsshBox_Parse b buf =
     (case pssh_kids
        (b\<lparr>pssh_Header := (pssh_Header b)\<lparr>Size := be_uint32 (take 4 buf),
               Type := copy_go (Type (pssh_Header b)) (take 4 (drop 4 buf))\<rparr>,
           pssh_Version := buf ! 8,
           pssh_Flags := copy_go (pssh_Flags b) (take 3 (drop 9 buf)),
           SystemID := copy_go (SystemID b) (take 16 (drop 12 buf))\<rparr>)
        \<lparr>data = buf, offset = 28\<rparr> buf of
        ((b3, p3), Some e) \<Rightarrow> (b3, Some e)
      | ((b3, p3), None) \<Rightarrow> pssh_tail b3 p3 buf)"
proof -
  have v: "take 4 (drop 8 buf) ! 0 = buf ! 8" using assms by simp
  have f: "drop (Suc 0) (take 4 (drop 8 buf)) = take 3 (drop 9 buf)"
    by (simp add: drop_take)
  show ?thesis
    using assms by (simp add: PsshBox_Parse_def BoxHeader_Parse_def Bytes_def Let_def v f)
qed


lemma pssh_kid_loop_short:
  "i < n \<Longrightarrow> length (data p) < offset p + 16 * (n - i) \<Longrightarrow>
   snd (pssh_kid_loop i n p kids) = Some Panic"
proof (induction i n p kids rule: pssh_kid_loop.induct)
  case (1 i n p kids)
  show ?case
  proof (cases "Bytes p 16")
    case None
    with "1.prems" show ?thesis by (subst pssh_kid_loop.simps) simp
  next
    case (Some r)
    obtain bs p1 where r: "r = (bs, p1)" by (cases r)
    from Bytes_SomeD [OF Some [unfolded r]]
    have R: "offset p + 16 \<le> length (data p)" and p1: "p1 = p\<lparr>offset := offset p + 16\<rparr>"
      by auto
    have "i + 1 < n" using R "1.prems" by (cases "i + 1 = n") auto
    moreover have "length (data p1) < offset p1 + 16 * (n - (i + 1))"
      using "1.prems" p1 by simp
    ultimately have "snd (pssh_kid_loop (i + 1) n p1 (kids[i := copy_go (kids ! i) bs])) = Some Panic"
      using "1.IH" [OF "1.prems"(1) Some [unfolded r] refl] by simp
    then show ?thesis
      using "1.prems"(1) Some r by (subst pssh_kid_loop.simps) simp
  qed
qed

lemma pssh_wrap_panic:
  assumes "32 \<le> length buf" and "buf ! 8 \<noteq> 0"
    and "\<not> pssh_kids_too_short buf 32 (be_uint32 (take 4 (drop 28 buf)))"
    and "length buf < 32 + 16 * unat (be_uint32 (take 4 (drop 28 buf)))"
  shows "snd (PsshBox_Parse b buf) = Some Panic"
proof -
  let ?K = "be_uint32 (take 4 (drop 28 buf))"
  have "0 < unat ?K" using assms(1,4) by (cases "unat ?K") auto
  then have "snd (pssh_kid_loop 0 (unat ?K) \<lparr>data = buf, offset = 32\<rparr>
                (replicate (unat ?K) (replicate 16 0))) = Some Panic"
    using assms(4) by (intro pssh_kid_loop_short) simp_all
  then obtain kids p2 where "pssh_kid_loop 0 (unat ?K) \<lparr>data = buf, offset = 32\<rparr>
                (replicate (unat ?K) (replicate 16 0)) = ((kids, p2), Some Panic)"
    by (metis prod.collapse)
  then show ?thesis
    using assms(1,2,3)
    by (simp add: PsshBox_Parse_prefix pssh_kids_def word_greater_zero_iff Uint32_def Bytes_def)
qed

lemmas pssh_eval = PsshBox_Parse_def BoxHeader_Parse_def Bytes_def Let_def PsshBox_zero_def
  BoxHeader_zero_def pssh_kids_def pssh_tail_def Uint32_def be_uint32_bytes copy_go_def
  pssh_kids_too_short_def pssh_kid_loop.simps

lemma pssh_v0_parse: "PsshBox_Parse PsshBox_zero pssh_v0_buf =
   (\<lparr>pssh_Header = \<lparr>Size = 36, Type = [0x70,0x73,0x73,0x68]\<rparr>, pssh_Version = 0,
     pssh_Flags = [0,0,0], SystemID = replicate 16 0xAB, KIDs = [],
     Data = [0xDE,0xAD,0xBE,0xEF]\<rparr>, None)"
  by (simp add: pssh_eval pssh_v0_buf_def)

lemma replicate_2: "replicate 2 x = [x, x]"
  by (simp add: numeral_2_eq_2)

lemma pssh_v1_parse: "PsshBox_Parse PsshBox_zero pssh_v1_buf =
   (\<lparr>pssh_Header = \<lparr>Size = 70, Type = [0x70,0x73,0x73,0x68]\<rparr>, pssh_Version = 1,
     pssh_Flags = [0,0,0], SystemID = replicate 16 0xAB,
     KIDs = [replicate 16 0x11, replicate 16 0x22],
     Data = [0xBE,0xEF]\<rparr>, None)"
  by (simp add: pssh_eval pssh_v1_buf_def replicate_2)

section \<open>Claims on the PSSH parser\<close>

text \<open>Claim C6. A PSSH box of version 0 has no key-ID array read: \<open>KIDs\<close> keeps its prior
  value (empty in a fresh structure) whatever follows the system ID, and the four bytes
  right after the system ID are the data size. An accepted box of version 1 or more whose
  key-ID count is \<open>K\<close> yields exactly \<open>K\<close> key IDs of 16 bytes each, in buffer order from
  offset 32.\<close>

theorem pssh_key_ids:
  "(28 \<le> length buf \<and> buf ! 8 = 0 \<longrightarrow>
      KIDs (fst (PsshBox_Parse b buf)) = KIDs b \<and>
      (snd (PsshBox_Parse b buf) = None \<longrightarrow>
         Data (fst (PsshBox_Parse b buf)) =
           take (unat (be_uint32 (take 4 (drop 28 buf)))) (drop 32 buf))) \<and>
   (snd (PsshBox_Parse b buf) = None \<and> buf ! 8 \<noteq> 0 \<longrightarrow>
      KIDs (fst (PsshBox_Parse b buf)) =
        map (\<lambda>i. take 16 (drop (32 + 16 * i) buf))
          [0..<unat (be_uint32 (take 4 (drop 28 buf)))])"
proof (intro conjI impI)
  assume A: "28 \<le> length buf \<and> buf ! 8 = 0"
  then have P: "PsshBox_Parse b buf =
      pssh_tail (b\<lparr>pssh_Header := (pssh_Header b)\<lparr>Size := be_uint32 (take 4 buf),
               Type := copy_go (Type (pssh_Header b)) (take 4 (drop 4 buf))\<rparr>,
           pssh_Version := buf ! 8,
           pssh_Flags := copy_go (pssh_Flags b) (take 3 (drop 9 buf)),
           SystemID := copy_go (SystemID b) (take 16 (drop 12 buf))\<rparr>)
        \<lparr>data = buf, offset = 28\<rparr> buf"
    by (simp add: PsshBox_Parse_prefix pssh_kids_v0)
  show "KIDs (fst (PsshBox_Parse b buf)) = KIDs b"
    by (simp add: P pssh_tail_KIDs)
  assume "snd (PsshBox_Parse b buf) = None"
  then show "Data (fst (PsshBox_Parse b buf)) =
      take (unat (be_uint32 (take 4 (drop 28 buf)))) (drop 32 buf)"
    unfolding P by (auto simp add: pssh_tail_def Uint32_def Bytes_def split: if_splits)
next
  assume B: "snd (PsshBox_Parse b buf) = None \<and> buf ! 8 \<noteq> 0"
  let ?b2 = "b\<lparr>pssh_Header := (pssh_Header b)\<lparr>Size := be_uint32 (take 4 buf),
               Type := copy_go (Type (pssh_Header b)) (take 4 (drop 4 buf))\<rparr>,
           pssh_Version := buf ! 8,
           pssh_Flags := copy_go (pssh_Flags b) (take 3 (drop 9 buf)),
           SystemID := copy_go (SystemID b) (take 16 (drop 12 buf))\<rparr>"
  let ?p = "\<lparr>data = buf, offset = 28\<rparr>"
  have len: "28 \<le> length buf"
  proof (rule ccontr)
    assume "\<not> 28 \<le> length buf"
    then have "snd (PsshBox_Parse b buf) \<noteq> None"
      by (simp add: PsshBox_Parse_def BoxHeader_Parse_def Let_def)
    with B show False by simp
  qed
  obtain b3 p3 e where K: "pssh_kids ?b2 ?p buf = ((b3, p3), e)"
    by (metis surj_pair)
  from B have e: "e = None"
    using K by (cases e) (simp_all add: PsshBox_Parse_prefix [OF len])
  have "KIDs b3 = map (\<lambda>i. take 16 (drop (offset ?p + 4 + 16 * i) buf))
                     [0..<unat (be_uint32 (take 4 (drop (offset ?p) buf)))]"
    by (rule pssh_kids_ok [OF K [unfolded e]]) (use B in simp_all)
  moreover have "KIDs (fst (PsshBox_Parse b buf)) = KIDs b3"
    using K e by (simp add: PsshBox_Parse_prefix [OF len] pssh_tail_KIDs)
  ultimately show "KIDs (fst (PsshBox_Parse b buf)) =
        map (\<lambda>i. take 16 (drop (32 + 16 * i) buf))
          [0..<unat (be_uint32 (take 4 (drop 28 buf)))]"
    by simp
qed


theorem pssh_key_ids_witness:
  "28 \<le> length pssh_v0_buf \<and> pssh_v0_buf ! 8 = 0 \<and>
   snd (PsshBox_Parse PsshBox_zero pssh_v0_buf) = None \<and>
   KIDs (fst (PsshBox_Parse PsshBox_zero pssh_v0_buf)) = [] \<and>
   Data (fst (PsshBox_Parse PsshBox_zero pssh_v0_buf)) = [0xDE,0xAD,0xBE,0xEF] \<and>
   snd (PsshBox_Parse PsshBox_zero pssh_v1_buf) = None \<and> pssh_v1_buf ! 8 \<noteq> 0 \<and>
   KIDs (fst (PsshBox_Parse PsshBox_zero pssh_v1_buf)) =
     [replicate 16 0x11, replicate 16 0x22]"
proof -
  have h0: "28 \<le> length pssh_v0_buf \<and> pssh_v0_buf ! 8 = 0"
    by (simp add: pssh_v0_buf_def)
  have s0: "snd (PsshBox_Parse PsshBox_zero pssh_v0_buf) = None"
    by (simp add: pssh_v0_parse)
  have h1: "snd (PsshBox_Parse PsshBox_zero pssh_v1_buf) = None \<and> pssh_v1_buf ! 8 \<noteq> 0"
    by (simp add: pssh_v1_parse) (simp add: pssh_v1_buf_def)
  have r0: "take (unat (be_uint32 (take 4 (drop 28 pssh_v0_buf)))) (drop 32 pssh_v0_buf)
            = [0xDE,0xAD,0xBE,0xEF]"
    by (simp add: pssh_v0_buf_def be_uint32_bytes)
  have r1: "map (\<lambda>i. take 16 (drop (32 + 16 * i) pssh_v1_buf))
              [0..<unat (be_uint32 (take 4 (drop 28 pssh_v1_buf)))]
            = [replicate 16 0x11, replicate 16 0x22]"
    by (simp add: pssh_v1_buf_def be_uint32_bytes upt_conv_Cons)
  from pssh_key_ids [of pssh_v0_buf PsshBox_zero] h0 s0 r0
  have "KIDs (fst (PsshBox_Parse PsshBox_zero pssh_v0_buf)) = [] \<and>
        Data (fst (PsshBox_Parse PsshBox_zero pssh_v0_buf)) = [0xDE,0xAD,0xBE,0xEF]"
    by (simp add: PsshBox_zero_def)
  moreover from pssh_key_ids [of pssh_v1_buf PsshBox_zero] h1 r1
  have "KIDs (fst (PsshBox_Parse PsshBox_zero pssh_v1_buf)) =
     [replicate 16 0x11, replicate 16 0x22]"
    by simp
  ultimately show ?thesis using h0 s0 h1 by simp
qed


text \<open>Claim C7, evaluated at an input where it fails. The buffer is 32 bytes long, of version 1,
  with a key-ID count of \<open>0x10000000\<close>: it is far too short for the key-ID array, yet
  the parse ends in a run-time panic at the first key ID and not in a length-violation
  error, because the product of line 37 wraps to 0.\<close>

theorem pssh_kid_array_panic:
  "length pssh_buf32 = 32 \<and> be_uint32 (take 4 (drop 28 pssh_buf32)) = 0x10000000 \<and>
   snd (PsshBox_Parse PsshBox_zero pssh_buf32) = Some Panic"
proof -
  have k: "be_uint32 (take 4 (drop 28 pssh_buf32)) = 0x10000000"
    by (simp add: pssh_buf32_def be_uint32_bytes)
  have "snd (PsshBox_Parse PsshBox_zero pssh_buf32) = Some Panic"
    by (rule pssh_wrap_panic) (simp_all add: k pssh_kids_too_short_def, simp_all add: pssh_buf32_def)
  then show ?thesis using k by (simp add: pssh_buf32_def)
qed

text \<open>Claim C10. The bounds check before the key-ID array compares the buffer length with
  the offset plus \<open>kidCount * 16\<close> taken modulo \<open>2 ^ 32\<close>. With the count \<open>0x10000001\<close>
  in a version-1 box of 48 bytes the check passes, although the array would end at byte
  4294967344; the loop then runs off the buffer.\<close>

theorem pssh_kid_check_wraps:
  "pssh_kids_too_short buf off kidCount = (length buf < off + (unat kidCount * 16) mod 2 ^ 32) \<and>
   be_uint32 (take 4 (drop 28 pssh_buf48)) = 0x10000001 \<and>
   \<not> pssh_kids_too_short pssh_buf48 32 0x10000001 \<and>
   length pssh_buf48 = 48 \<and>
   32 + unat (0x10000001 :: u32) * 16 = 4294967344 \<and>
   snd (PsshBox_Parse PsshBox_zero pssh_buf48) = Some Panic"
proof -
  have w: "pssh_kids_too_short buf off kidCount = (length buf < off + (unat kidCount * 16) mod 2 ^ 32)"
    by (simp add: pssh_kids_too_short_def unat_word_ariths)
  have k: "be_uint32 (take 4 (drop 28 pssh_buf48)) = 0x10000001"
    by (simp add: pssh_buf48_def be_uint32_bytes)
  have l: "length pssh_buf48 = 48" by (simp add: pssh_buf48_def)
  have c: "\<not> pssh_kids_too_short pssh_buf48 32 0x10000001"
    by (simp add: pssh_kids_too_short_def l)
  have "snd (PsshBox_Parse PsshBox_zero pssh_buf48) = Some Panic"
    by (rule pssh_wrap_panic) (simp_all add: k c l, simp add: pssh_buf48_def)
  then show ?thesis using w k l c by simp
qed


section \<open>Lemmas on the TENC parser\<close>

lemma version_of_be_uint32: "ucast (drop_bit 24 (be_uint32 bs)) = bs ! 0"
  unfolding be_uint32_def by (rule version_of_word)

lemma TencBox_Parse_prefix:
  assumes "12 \<le> length buf"
  shows "TencBox_Parse b buf =
     (if buf ! 8 = 0
      then tenc_v0 (b\<lparr>tenc_Header := (tenc_Header b)\<lparr>Size := be_uint32 (take 4 buf),
                         Type := copy_go (Type (tenc_Header b)) (take 4 (drop 4 buf))\<rparr>,
                      tenc_Version := buf ! 8,
                      tenc_Flags := be_uint32 (take 4 (drop 8 buf)) AND 0x00FFFFFF\<rparr>)
             \<lparr>data = buf, offset = 12\<rparr> buf
      else (b\<lparr>tenc_Header := (tenc_Header b)\<lparr>Size := be_uint32 (take 4 buf),
                 Type := copy_go (Type (tenc_Header b)) (take 4 (drop 4 buf))\<rparr>,
              tenc_Version := buf ! 8,
              tenc_Flags := be_uint32 (take 4 (drop 8 buf)) AND 0x00FFFFFF\<rparr>, None))"
proof -
  have v: "take 4 (drop 8 buf) ! 0 = buf ! 8" using assms by simp
  show ?thesis
    using assms
    by (simp add: TencBox_Parse_def BoxHeader_Parse_def Uint32_def Bytes_def Let_def
        version_of_be_uint32 v)
qed

lemma tenc_v0_fixed:
  assumes "32 \<le> length buf"
  shows "tenc_v0 b \<lparr>data = buf, offset = 12\<rparr> buf =
     tenc_constant_iv (b\<lparr>DefaultIsProtected := buf ! 14, DefaultPerSampleIVSize := buf ! 15,
                         DefaultKID := copy_go (DefaultKID b) (take 16 (drop 16 buf))\<rparr>)
       \<lparr>data = buf, offset = 32\<rparr> buf"
  using assms by (simp add: tenc_v0_def Byte_def Bytes_def Let_def)

lemmas tenc_eval = TencBox_Parse_def BoxHeader_Parse_def Bytes_def Byte_def Let_def TencBox_zero_def
  BoxHeader_zero_def tenc_v0_def tenc_constant_iv_def Uint32_def be_uint32_bytes copy_go_def

lemma tenc_buf32_parse: "TencBox_Parse TencBox_zero tenc_buf32 =
   (\<lparr>tenc_Header = \<lparr>Size = 32, Type = [0x74,0x65,0x6E,0x63]\<rparr>, tenc_Version = 0,
     tenc_Flags = 0, DefaultIsProtected = 1, DefaultPerSampleIVSize = 0,
     DefaultKID = [0x3c,0x18,0x63,0x99,0x5f,0x93,0xb8,0x2b,0xce,0x88,0xba,0xce,0x3a,0x1a,0xa6,0x7a],
     DefaultConstantIVSize = 0, DefaultConstantIV = []\<rparr>, None)"
  by (simp add: tenc_eval tenc_buf32_def)

lemma tenc_buf41_parse: "TencBox_Parse TencBox_zero tenc_buf41 =
   (\<lparr>tenc_Header = \<lparr>Size = 41, Type = [0x74,0x65,0x6E,0x63]\<rparr>, tenc_Version = 0,
     tenc_Flags = 0, DefaultIsProtected = 1, DefaultPerSampleIVSize = 0,
     DefaultKID = [0x3c,0x18,0x63,0x99,0x5f,0x93,0xb8,0x2b,0xce,0x88,0xba,0xce,0x3a,0x1a,0xa6,0x7a],
     DefaultConstantIVSize = 8, DefaultConstantIV = [1,2,3,4,5,6,7,8]\<rparr>, None)"
  by (simp add: tenc_eval tenc_buf41_def)

section \<open>Claims on the TENC parser\<close>

text \<open>Claim C4. A version-0 TENC box with \<open>isProtected = 1\<close> and \<open>perSampleIVSize = 0\<close>,
  held in a buffer of at least the 32 bytes of the fixed layout: when the header declares
  a size of exactly 32 the parse succeeds and the constant IV and its size keep their
  prior values (the IV is empty in a fresh structure); when the header declares more
  than 32 and the buffer holds the size byte and the bytes it announces, the tail is
  parsed and the constant IV has exactly \<open>DefaultConstantIVSize\<close> bytes.\<close>

theorem tenc_constant_iv_tail:
  assumes "32 \<le> length buf" and "buf ! 8 = 0" and "buf ! 14 = 1" and "buf ! 15 = 0"
  shows "(be_uint32 (take 4 buf) = 32 \<longrightarrow>
            snd (TencBox_Parse b buf) = None \<and>
            Size (tenc_Header (fst (TencBox_Parse b buf))) = 32 \<and>
            DefaultConstantIVSize (fst (TencBox_Parse b buf)) = DefaultConstantIVSize b \<and>
            DefaultConstantIV (fst (TencBox_Parse b buf)) = DefaultConstantIV b \<and>
            DefaultConstantIV (fst (TencBox_Parse TencBox_zero buf)) = []) \<and>
         (32 < be_uint32 (take 4 buf) \<and> 33 + unat (buf ! 32) \<le> length buf \<longrightarrow>
            snd (TencBox_Parse b buf) = None \<and>
            DefaultConstantIVSize (fst (TencBox_Parse b buf)) = buf ! 32 \<and>
            DefaultConstantIV (fst (TencBox_Parse b buf)) = take (unat (buf ! 32)) (drop 33 buf) \<and>
            length (DefaultConstantIV (fst (TencBox_Parse b buf))) =
              unat (DefaultConstantIVSize (fst (TencBox_Parse b buf))))"
proof -
  have P: "TencBox_Parse c buf =
     tenc_constant_iv (c\<lparr>tenc_Header := (tenc_Header c)\<lparr>Size := be_uint32 (take 4 buf),
                         Type := copy_go (Type (tenc_Header c)) (take 4 (drop 4 buf))\<rparr>,
                      tenc_Version := 0,
                      tenc_Flags := be_uint32 (take 4 (drop 8 buf)) AND 0x00FFFFFF,
                      DefaultIsProtected := 1, DefaultPerSampleIVSize := 0,
                      DefaultKID := copy_go (DefaultKID c) (take 16 (drop 16 buf))\<rparr>)
       \<lparr>data = buf, offset = 32\<rparr> buf" for c
    using assms by (simp add: TencBox_Parse_prefix tenc_v0_fixed)
  show ?thesis
  proof (intro conjI impI)
    assume S: "be_uint32 (take 4 buf) = 32"
    show "snd (TencBox_Parse b buf) = None"
      "Size (tenc_Header (fst (TencBox_Parse b buf))) = 32"
      "DefaultConstantIVSize (fst (TencBox_Parse b buf)) = DefaultConstantIVSize b"
      "DefaultConstantIV (fst (TencBox_Parse b buf)) = DefaultConstantIV b"
      "DefaultConstantIV (fst (TencBox_Parse TencBox_zero buf)) = []"
      by (simp_all add: P tenc_constant_iv_def S TencBox_zero_def)
  next
    assume L: "32 < be_uint32 (take 4 buf) \<and> 33 + unat (buf ! 32) \<le> length buf"
    then have "32 < unat (be_uint32 (take 4 buf))"
      by (simp add: word_less_nat_alt)
    with L show "snd (TencBox_Parse b buf) = None"
      "DefaultConstantIVSize (fst (TencBox_Parse b buf)) = buf ! 32"
      "DefaultConstantIV (fst (TencBox_Parse b buf)) = take (unat (buf ! 32)) (drop 33 buf)"
      "length (DefaultConstantIV (fst (TencBox_Parse b buf))) =
              unat (DefaultConstantIVSize (fst (TencBox_Parse b buf)))"
      by (auto simp add: P tenc_constant_iv_def Byte_def Bytes_def Let_def)
  qed
qed


theorem tenc_constant_iv_tail_witness:
  "32 \<le> length tenc_buf32 \<and> tenc_buf32 ! 8 = 0 \<and> tenc_buf32 ! 14 = 1 \<and> tenc_buf32 ! 15 = 0 \<and>
   be_uint32 (take 4 tenc_buf32) = 32 \<and>
   snd (TencBox_Parse TencBox_zero tenc_buf32) = None \<and>
   DefaultConstantIV (fst (TencBox_Parse TencBox_zero tenc_buf32)) = [] \<and>
   32 \<le> length tenc_buf41 \<and> tenc_buf41 ! 8 = 0 \<and> tenc_buf41 ! 14 = 1 \<and> tenc_buf41 ! 15 = 0 \<and>
   32 < be_uint32 (take 4 tenc_buf41) \<and> 33 + unat (tenc_buf41 ! 32) \<le> length tenc_buf41 \<and>
   snd (TencBox_Parse TencBox_zero tenc_buf41) = None \<and>
   DefaultConstantIVSize (fst (TencBox_Parse TencBox_zero tenc_buf41)) = 8 \<and>
   DefaultConstantIV (fst (TencBox_Parse TencBox_zero tenc_buf41)) = [1,2,3,4,5,6,7,8]"
proof -
  have a: "32 \<le> length tenc_buf32" "tenc_buf32 ! 8 = 0" "tenc_buf32 ! 14 = 1" "tenc_buf32 ! 15 = 0"
    by (simp_all add: tenc_buf32_def)
  have a': "be_uint32 (take 4 tenc_buf32) = 32"
    by (simp add: tenc_buf32_def be_uint32_bytes)
  have c: "32 \<le> length tenc_buf41" "tenc_buf41 ! 8 = 0" "tenc_buf41 ! 14 = 1" "tenc_buf41 ! 15 = 0"
    by (simp_all add: tenc_buf41_def)
  have c': "32 < be_uint32 (take 4 tenc_buf41)" "33 + unat (tenc_buf41 ! 32) \<le> length tenc_buf41"
    "tenc_buf41 ! 32 = 8" "take (unat (tenc_buf41 ! 32)) (drop 33 tenc_buf41) = [1,2,3,4,5,6,7,8]"
    by (simp_all add: tenc_buf41_def be_uint32_bytes)
  from tenc_constant_iv_tail [OF a, of TencBox_zero] a'
  have 1: "snd (TencBox_Parse TencBox_zero tenc_buf32) = None \<and>
   DefaultConstantIV (fst (TencBox_Parse TencBox_zero tenc_buf32)) = []" by (simp add: TencBox_zero_def)
  from tenc_constant_iv_tail [OF c, of TencBox_zero] c'
  have 2: "snd (TencBox_Parse TencBox_zero tenc_buf41) = None \<and>
   DefaultConstantIVSize (fst (TencBox_Parse TencBox_zero tenc_buf41)) = 8 \<and>
   DefaultConstantIV (fst (TencBox_Parse TencBox_zero tenc_buf41)) = [1,2,3,4,5,6,7,8]" by simp
  show ?thesis using a a' c c'(1,2) 1 2 by simp
qed

text \<open>Claim C9. For a TENC box whose version byte is not 0, in a buffer that holds the
  header and the version/flags word, the parse returns a nil error; it has assigned the
  header, the version and the flags and nothing else, so that in a fresh structure all
  fields of the version-0 payload are left at their zero values.\<close>

theorem tenc_other_version:
  assumes "12 \<le> length buf" and "buf ! 8 \<noteq> 0"
  shows "TencBox_Parse b buf =
           (b\<lparr>tenc_Header := (tenc_Header b)\<lparr>Size := be_uint32 (take 4 buf),
                 Type := copy_go (Type (tenc_Header b)) (take 4 (drop 4 buf))\<rparr>,
              tenc_Version := buf ! 8,
              tenc_Flags := be_uint32 (take 4 (drop 8 buf)) AND 0x00FFFFFF\<rparr>, None) \<and>
         DefaultIsProtected (fst (TencBox_Parse TencBox_zero buf)) = 0 \<and>
         DefaultPerSampleIVSize (fst (TencBox_Parse TencBox_zero buf)) = 0 \<and>
         DefaultKID (fst (TencBox_Parse TencBox_zero buf)) = replicate 16 0 \<and>
         DefaultConstantIVSize (fst (TencBox_Parse TencBox_zero buf)) = 0 \<and>
         DefaultConstantIV (fst (TencBox_Parse TencBox_zero buf)) = []"
  using assms by (simp add: TencBox_Parse_prefix TencBox_zero_def)

theorem tenc_other_version_witness:
  "12 \<le> length tenc_v1_buf \<and> tenc_v1_buf ! 8 \<noteq> 0 \<and>
   TencBox_Parse TencBox_zero tenc_v1_buf =
     (TencBox_zero\<lparr>tenc_Header := \<lparr>Size = 32, Type = [0x74,0x65,0x6E,0x63]\<rparr>,
                    tenc_Version := 1, tenc_Flags := 7\<rparr>, None)"
proof -
  have h: "12 \<le> length tenc_v1_buf" "tenc_v1_buf ! 8 \<noteq> 0"
    by (simp_all add: tenc_v1_buf_def)
  have e: "be_uint32 (take 4 tenc_v1_buf) = 32" "be_uint32 (take 4 (drop 8 tenc_v1_buf)) AND 0x00FFFFFF = 7"
     "tenc_v1_buf ! 8 = 1" "take 4 (drop 4 tenc_v1_buf) = [0x74,0x65,0x6E,0x63]"
    by (simp_all add: tenc_v1_buf_def be_uint32_bytes)
  from tenc_other_version [OF h, of TencBox_zero] show ?thesis
    using h by (simp add: e TencBox_zero_def BoxHeader_zero_def copy_go_def)
qed

section \<open>Lemmas on the sample decryptor\<close>

lemma length_xor_bytes: "length (xor_bytes xs ks) = min (length xs) (length ks)"
  by (simp add: xor_bytes_def)

lemma nth_xor_bytes:
  "i < length xs \<Longrightarrow> i < length ks \<Longrightarrow> xor_bytes xs ks ! i = xs ! i XOR ks ! i"
  by (simp add: xor_bytes_def)

lemma xor_bytes_comm: "xor_bytes a b = xor_bytes b a"
  by (rule nth_equalityI) (simp_all add: length_xor_bytes nth_xor_bytes xor.commute min.commute)

lemma xor_bytes_assoc: "xor_bytes (xor_bytes a b) c = xor_bytes a (xor_bytes b c)"
  by (rule nth_equalityI)
     (simp_all add: length_xor_bytes nth_xor_bytes xor.assoc min.assoc)

lemma xor_bytes_cancel: "length a = length b \<Longrightarrow> xor_bytes b (xor_bytes a b) = a"
  by (rule nth_equalityI) (simp_all add: length_xor_bytes nth_xor_bytes xor.left_commute)

lemma xor_bytes_zero: "xor_bytes s (replicate (length s) 0) = s"
  by (rule nth_equalityI) (simp_all add: length_xor_bytes nth_xor_bytes)

lemma xor_bytes_append:
  "length a = length c \<Longrightarrow> xor_bytes (a @ b) (c @ d) = xor_bytes a c @ xor_bytes b d"
  by (simp add: xor_bytes_def)

lemma take_xor_bytes: "take n (xor_bytes a b) = xor_bytes (take n a) (take n b)"
  by (simp add: xor_bytes_def take_map take_zip)

lemma drop_xor_bytes: "drop n (xor_bytes a b) = xor_bytes (drop n a) (drop n b)"
  by (simp add: xor_bytes_def drop_map drop_zip)

lemma length_keystream: "length (keystream s n) = n"
  by (simp add: keystream_def)

lemma slice3: "off \<le> e \<Longrightarrow> take off s @ take (e - off) (drop off s) @ drop e s = s"
proof -
  assume "off \<le> e"
  then have "drop e s = drop (e - off) (drop off s)" by simp
  then show ?thesis by (simp only: append_take_drop_id)
qed

lemma decrypt_step_clear:
  "BytesOfProtectedData x = 0 \<Longrightarrow>
   decrypt_subsamples st off s (x # xs) =
     decrypt_subsamples st (off + unat (BytesOfClearData x)) s xs"
  by (simp add: Let_def)

lemma decrypt_step_panic:
  assumes "0 < BytesOfProtectedData x" and "off1 = off + unat (BytesOfClearData x)"
    and "length s < off1"
  shows "decrypt_subsamples st off s (x # xs) = (s, Some Panic)"
  using assms by (simp add: Let_def)

lemma decrypt_step_protected:
  assumes "0 < BytesOfProtectedData x" and "off1 = off + unat (BytesOfClearData x)"
    and "end1 = min (length s) (off1 + unat (BytesOfProtectedData x))"
    and "off1 \<le> length s"
  shows "decrypt_subsamples st off s (x # xs) =
     decrypt_subsamples (st\<lparr>ctr_used := ctr_used st + (end1 - off1)\<rparr>) end1
       (take off1 s @ xor_bytes (take (end1 - off1) (drop off1 s)) (keystream st (end1 - off1))
          @ drop end1 s) xs"
  using assms by (auto simp add: Let_def XORKeyStream_def min_def)

lemma length_decrypt_subsamples:
  "length (fst (decrypt_subsamples st off s subs)) = length s"
proof (induction subs arbitrary: st off s)
  case Nil
  show ?case by simp
next
  case (Cons x xs)
  show ?case
    by (simp add: Let_def XORKeyStream_def Cons.IH length_xor_bytes length_keystream)
qed

lemma decrypt_subsamples_xor:
  "length z = length s \<Longrightarrow>
   decrypt_subsamples st off (xor_bytes s z) subs =
     (xor_bytes s (fst (decrypt_subsamples st off z subs)),
      snd (decrypt_subsamples st off z subs))"
proof (induction subs arbitrary: st off z)
  case Nil
  show ?case by simp
next
  case (Cons x xs)
  define off1 where "off1 = off + unat (BytesOfClearData x)"
  define end1 where "end1 = min (length z) (off1 + unat (BytesOfProtectedData x))"
  have lx: "length (xor_bytes s z) = length z"
    using Cons.prems by (simp add: length_xor_bytes)
  consider (clear) "BytesOfProtectedData x = 0"
    | (panic) "0 < BytesOfProtectedData x" "length z < off1"
    | (prot) "0 < BytesOfProtectedData x" "off1 \<le> length z"
    by (cases "BytesOfProtectedData x = 0"; cases "length z < off1")
       (auto simp add: word_greater_zero_iff not_less)
  then show ?case
  proof cases
    case clear
    then show ?thesis
      by (simp only: decrypt_step_clear Cons.IH [OF Cons.prems])
  next
    case panic
    have "decrypt_subsamples st off (xor_bytes s z) (x # xs) = (xor_bytes s z, Some Panic)"
      by (rule decrypt_step_panic [OF panic(1) off1_def]) (simp add: lx panic(2))
    moreover have "decrypt_subsamples st off z (x # xs) = (z, Some Panic)"
      by (rule decrypt_step_panic [OF panic(1) off1_def panic(2)])
    ultimately show ?thesis by simp
  next
    case prot
    let ?n = "end1 - off1"
    let ?ks = "keystream st ?n"
    let ?st1 = "st\<lparr>ctr_used := ctr_used st + ?n\<rparr>"
    let ?z1 = "take off1 z @ xor_bytes (take ?n (drop off1 z)) ?ks @ drop end1 z"
    have e: "end1 \<le> length z" "off1 \<le> end1"
      using prot(2) by (simp_all add: end1_def)
    have lz1: "length ?z1 = length s"
      using e Cons.prems by (simp add: length_xor_bytes length_keystream)
    have "take off1 (xor_bytes s z) @ xor_bytes (take ?n (drop off1 (xor_bytes s z))) ?ks
            @ drop end1 (xor_bytes s z)
          = xor_bytes (take off1 s) (take off1 z)
            @ xor_bytes (take ?n (drop off1 s)) (xor_bytes (take ?n (drop off1 z)) ?ks)
            @ xor_bytes (drop end1 s) (drop end1 z)"
      by (simp only: take_xor_bytes drop_xor_bytes xor_bytes_assoc)
    also have "\<dots> = xor_bytes (take off1 s @ take ?n (drop off1 s) @ drop end1 s) ?z1"
      using Cons.prems e
      by (subst xor_bytes_append, simp, subst xor_bytes_append)
         (simp_all add: length_xor_bytes length_keystream)
    also have "\<dots> = xor_bytes s ?z1"
      using e(2) by (simp only: slice3)
    finally have upd: "take off1 (xor_bytes s z) @ xor_bytes (take ?n (drop off1 (xor_bytes s z))) ?ks
            @ drop end1 (xor_bytes s z) = xor_bytes s ?z1" .
    have A: "decrypt_subsamples st off (xor_bytes s z) (x # xs) =
             decrypt_subsamples ?st1 end1 (xor_bytes s ?z1) xs"
      by (subst decrypt_step_protected [OF prot(1) off1_def, of end1])
         (simp_all add: lx end1_def [symmetric] prot(2) upd)
    have B: "decrypt_subsamples st off z (x # xs) = decrypt_subsamples ?st1 end1 ?z1 xs"
      by (rule decrypt_step_protected [OF prot(1) off1_def end1_def prot(2)])
    show ?thesis
      unfolding A B by (rule Cons.IH [OF lz1])
  qed
qed

lemma decrypt_10_20_5_65:
  assumes "length sample = 100" and "BlockSize block = 16"
    and "length iv = 8 \<or> length iv = 16"
    and "st = \<lparr>ctr_block = block,
                ctr_iv = (if length iv = 8 then iv @ replicate 8 0 else iv), ctr_used = 0\<rparr>"
  shows "DecryptSample sample (Some \<lparr>IV = iv, Subsamples = subsamples_10_20_5_65\<rparr>) block =
     (take 10 sample @ xor_bytes (take 20 (drop 10 sample)) (keystream st 20) @
      take 5 (drop 30 sample) @
      xor_bytes (drop 35 sample) (keystream (st\<lparr>ctr_used := 20\<rparr>) 65), None)"
proof -
  let ?iv = "if length iv = 8 then iv @ replicate 8 0 else iv"
  have pad: "(if length iv = 8 then copy_go (replicate 16 0) iv else iv) = ?iv"
    by (simp add: copy_go_def)
  have new: "NewCTR block ?iv = Some st"
    using assms(2,3,4) by (auto simp add: NewCTR_def)
  let ?z1 = "take 10 sample @ xor_bytes (take 20 (drop 10 sample)) (keystream st 20) @ drop 30 sample"
  have s1: "decrypt_subsamples st 0 sample subsamples_10_20_5_65 =
            decrypt_subsamples (st\<lparr>ctr_used := ctr_used st + (30 - 10)\<rparr>) 30 ?z1
              [\<lparr>BytesOfClearData = 5, BytesOfProtectedData = 65\<rparr>]"
    unfolding subsamples_10_20_5_65_def
    by (subst decrypt_step_protected [where ?off1.0 = 10 and ?end1.0 = 30])
       (simp_all add: assms(1))
  have lz1: "length ?z1 = 100"
    using assms(1) by (simp add: length_xor_bytes length_keystream)
  let ?st1 = "st\<lparr>ctr_used := ctr_used st + (30 - 10)\<rparr>"
  have s2: "decrypt_subsamples ?st1 30 ?z1 [\<lparr>BytesOfClearData = 5, BytesOfProtectedData = 65\<rparr>] =
            decrypt_subsamples (?st1\<lparr>ctr_used := ctr_used ?st1 + (100 - 35)\<rparr>) 100
              (take 35 ?z1 @ xor_bytes (take (100 - 35) (drop 35 ?z1)) (keystream ?st1 (100 - 35))
                 @ drop 100 ?z1) []"
    by (subst decrypt_step_protected [where ?off1.0 = 35 and ?end1.0 = 100])
       (simp_all add: lz1 del: length_append)
  have st1: "?st1 = st\<lparr>ctr_used := 20\<rparr>" using assms(4) by simp
  have t: "take 35 ?z1 = take 10 sample @ xor_bytes (take 20 (drop 10 sample)) (keystream st 20)
             @ take 5 (drop 30 sample)"
    using assms(1) by (simp add: length_xor_bytes length_keystream)
  have d: "take 65 (drop 35 ?z1) = drop 35 sample"
    using assms(1) by (simp add: length_xor_bytes length_keystream)
  have e: "drop 100 ?z1 = []" by (rule drop_all) (simp only: lz1)
  have new': "NewCTR block (if length iv = 8 then copy_go (replicate 16 0) iv else iv) = Some st"
    by (simp only: pad new)
  have ne: "subsamples_10_20_5_65 \<noteq> []" by (simp add: subsamples_10_20_5_65_def)
  have n: "(100::nat) - 35 = 65" by simp
  note s1' = s1 [unfolded st1]
  note s2' = s2 [unfolded st1 n]
  have run: "decrypt_subsamples st 0 sample subsamples_10_20_5_65 =
     (take 10 sample @ xor_bytes (take 20 (drop 10 sample)) (keystream st 20) @
      take 5 (drop 30 sample) @
      xor_bytes (drop 35 sample) (keystream (st\<lparr>ctr_used := 20\<rparr>) 65), None)"
    by (simp only: s1' s2' decrypt_subsamples.simps(1) t d e append_Nil2 append_assoc)
  have "DecryptSample sample (Some \<lparr>IV = iv, Subsamples = subsamples_10_20_5_65\<rparr>) block =
        decrypt_subsamples st 0 sample subsamples_10_20_5_65"
    using assms(3) new' ne by (auto simp add: DecryptSample_def Let_def)
  then show ?thesis by (simp only: run)
qed


lemma replicate_8: "replicate 8 x = [x, x, x, x, x, x, x, x]"
  by (simp add: numeral_eq_Suc)

lemma inc_iv: "inc_be (iv8 @ replicate 8 0) = [1,2,3,4,5,6,7,8,0,0,0,0,0,0,0,1]"
  by (simp add: inc_be_def iv8_def replicate_8)

lemma ks20: "keystream_byte xor_block (iv8 @ replicate 8 0) 20 = 0xA0"
  by (simp add: keystream_byte_def xor_block_def inc_iv)


lemma nth_keystream: "k < n \<Longrightarrow> keystream st n ! k = keystream_byte (ctr_block st) (ctr_iv st) (ctr_used st + k)"
  by (simp add: keystream_def)

section \<open>Claims on the sample decryptor\<close>

text \<open>Claim C1, as the code has it. For a sample of 100 bytes and the subsamples
  \<open>{clear 10, protected 20}\<close>, \<open>{clear 5, protected 65}\<close>, with a 16-byte block cipher and
  an IV of 8 or 16 bytes, \<open>DecryptSample\<close> returns normally and has XORed exactly the
  ranges [10,30) and [35,100) with the keystream bytes 0 to 19 and 20 to 84; the bytes
  in [0,10) and [30,35) are those of the input. The second range starts at
  10 + 20 + 5 = 35 and ends at 35 + 65 = 100, so nothing is clamped.\<close>

theorem decrypt_example_ranges:
  assumes "length sample = 100" and "BlockSize block = 16"
    and "length iv = 8 \<or> length iv = 16"
  shows "DecryptSample sample (Some \<lparr>IV = iv, Subsamples = subsamples_10_20_5_65\<rparr>) block =
     (take 10 sample @
      xor_bytes (take 20 (drop 10 sample))
        (keystream \<lparr>ctr_block = block,
            ctr_iv = (if length iv = 8 then iv @ replicate 8 0 else iv), ctr_used = 0\<rparr> 20) @
      take 5 (drop 30 sample) @
      xor_bytes (drop 35 sample)
        (keystream \<lparr>ctr_block = block,
            ctr_iv = (if length iv = 8 then iv @ replicate 8 0 else iv), ctr_used = 20\<rparr> 65),
      None)"
  using decrypt_10_20_5_65 [OF assms refl] by simp

theorem decrypt_example_ranges_witness:
  "length sample100 = 100 \<and> BlockSize xor_block = 16 \<and> (length iv8 = 8 \<or> length iv8 = 16) \<and>
   DecryptSample sample100 (Some info100) xor_block =
     (take 10 sample100 @
      xor_bytes (take 20 (drop 10 sample100))
        (keystream \<lparr>ctr_block = xor_block, ctr_iv = iv8 @ replicate 8 0, ctr_used = 0\<rparr> 20) @
      take 5 (drop 30 sample100) @
      xor_bytes (drop 35 sample100)
        (keystream \<lparr>ctr_block = xor_block, ctr_iv = iv8 @ replicate 8 0, ctr_used = 20\<rparr> 65),
      None)"
proof -
  have h: "length sample100 = 100" "BlockSize xor_block = 16" "length iv8 = 8 \<or> length iv8 = 16"
    by (simp_all add: sample100_def xor_block_def iv8_def)
  have l: "length iv8 = 8" by (simp add: iv8_def)
  from decrypt_example_ranges [OF h] show ?thesis
    using h by (simp add: info100_def l)
qed

text \<open>Claim C1 as stated fails: byte 35 lies outside [10,30) and [45,100), and it is
  changed.\<close>

theorem decrypt_example_byte35:
  "length sample100 = 100 \<and>
   fst (DecryptSample sample100 (Some info100) xor_block) ! 35 \<noteq> sample100 ! 35"
proof -
  define st where "st = \<lparr>ctr_block = xor_block, ctr_iv = iv8 @ replicate 8 0, ctr_used = 0\<rparr>"
  have l: "length iv8 = 8" by (simp add: iv8_def)
  have st': "st = \<lparr>ctr_block = xor_block,
                ctr_iv = (if length iv8 = 8 then iv8 @ replicate 8 0 else iv8), ctr_used = 0\<rparr>"
    by (simp add: st_def l)
  have r: "fst (DecryptSample sample100 (Some info100) xor_block) =
     take 10 sample100 @ xor_bytes (take 20 (drop 10 sample100)) (keystream st 20) @
      take 5 (drop 30 sample100) @
      xor_bytes (drop 35 sample100) (keystream (st\<lparr>ctr_used := 20\<rparr>) 65)"
    unfolding info100_def
    by (subst decrypt_10_20_5_65 [OF _ _ _ st'])
       (simp_all add: sample100_def xor_block_def iv8_def)
  have "fst (DecryptSample sample100 (Some info100) xor_block) ! 35 =
        xor_bytes (drop 35 sample100) (keystream (st\<lparr>ctr_used := 20\<rparr>) 65) ! 0"
    unfolding r
    by (simp add: nth_append length_xor_bytes length_keystream sample100_def)
  also have "\<dots> = sample100 ! 35 XOR keystream_byte xor_block (iv8 @ replicate 8 0) 20"
    by (simp add: nth_xor_bytes length_keystream nth_keystream sample100_def st_def)
  also have "\<dots> = 0xA0" by (simp add: ks20 sample100_def)
  finally show ?thesis by (simp add: sample100_def)
qed

text \<open>Claim C2, evaluated at an input where it fails. The sample has 5 bytes and the only
  subsample declares 10 clear bytes and 20 protected ones: the end of the protected range
  is clamped to 5, the start stays at 10, and the slice \<^verbatim>\<open>sample[10:5]\<close> panics.\<close>

theorem decrypt_clear_overrun_panics:
  "DecryptSample short_sample (Some overrun_info) xor_block = (short_sample, Some Panic)"
  by (simp add: DecryptSample_def overrun_info_def iv8_def short_sample_def xor_block_def
      NewCTR_def copy_go_def Let_def)

text \<open>Claim C3. Applying \<open>DecryptSample\<close> twice with the same info and the same block
  cipher restores the sample buffer, and the second call ends as the first did.\<close>

theorem decrypt_twice:
  "DecryptSample (fst (DecryptSample sample info block)) info block =
     (sample, snd (DecryptSample sample info block))"
proof (cases info)
  case None
  then show ?thesis by (simp add: DecryptSample_def)
next
  case (Some sei)
  define iv where "iv = (if length (IV sei) = 8 then copy_go (replicate 16 0) (IV sei) else IV sei)"
  show ?thesis
  proof (cases "IV sei = [] \<or> NewCTR block iv = None")
    case True
    then show ?thesis using Some by (auto simp add: DecryptSample_def iv_def Let_def)
  next
    case False
    then obtain st where st: "NewCTR block iv = Some st" by auto
    show ?thesis
    proof (cases "Subsamples sei = []")
      case True
      have "xor_bytes (xor_bytes sample (keystream st (length sample))) (keystream st (length sample)) = sample"
        by (subst xor_bytes_comm) (simp add: xor_bytes_cancel length_keystream)
      then show ?thesis
        using Some False st True
        by (simp add: DecryptSample_def iv_def [symmetric] Let_def XORKeyStream_def
            length_xor_bytes length_keystream)
    next
      case nonempty: False
      let ?D = "\<lambda>s. decrypt_subsamples st 0 s (Subsamples sei)"
      let ?Z = "replicate (length sample) (0::u8)"
      let ?P = "fst (?D ?Z)"
      have lP: "length ?P = length sample" by (simp add: length_decrypt_subsamples)
      have D1: "?D sample = (xor_bytes sample ?P, snd (?D ?Z))"
        using decrypt_subsamples_xor [of ?Z sample st 0 "Subsamples sei"]
        by (simp add: xor_bytes_zero)
      have "?D (xor_bytes ?P sample) = (xor_bytes ?P (fst (?D sample)), snd (?D sample))"
        by (rule decrypt_subsamples_xor) (simp add: lP)
      also have "\<dots> = (xor_bytes ?P (xor_bytes sample ?P), snd (?D sample))"
        by (simp only: D1 fst_conv)
      also have "xor_bytes ?P (xor_bytes sample ?P) = sample"
        by (rule xor_bytes_cancel) (simp only: lP)
      finally have "?D (xor_bytes ?P sample) = (sample, snd (?D sample))" .
      then have D2: "?D (xor_bytes sample ?P) = (sample, snd (?D sample))"
        by (simp only: xor_bytes_comm [of sample])
      show ?thesis
        using Some False st nonempty D1 D2
        by (simp add: DecryptSample_def iv_def [symmetric] Let_def)
    qed
  qed
qed

end
